theory Spec2Isabelle
  imports Complex_Main
begin

section \<open>Zonal landscape metrics: SHDI, LPI, CONTAG, PD and ED\<close>

text \<open>
  A shallow embedding of the two metrics scripts \<^verbatim>\<open>course/shdiandlpi.py\<close> and
  \<^verbatim>\<open>course/pdanded.py\<close>. Pixel values are natural numbers, pixel counts are natural
  numbers, and every float of the source is an exact real: rounding and overflow of
  binary floating point are not part of the model. The three special results of IEEE
  arithmetic that the source can produce without raising (the two infinities and NaN)
  are values of the type \<open>npfloat\<close>; signed zeros are not modelled (every zero divisor
  of the scripts is a non-negative quantity).
\<close>

subsection \<open>Two-dimensional arrays\<close>

text \<open>
  A numpy 2-D array is its shape and its elements; \<open>cell A i j\<close> is \<^verbatim>\<open>A[i, j]\<close> and is
  only read by the model at \<open>i < shape0 A\<close>, \<open>j < shape1 A\<close>.
\<close>

record ndarray =
  shape0 :: nat
  shape1 :: nat
  cell :: "nat \<Rightarrow> nat \<Rightarrow> nat"

definition of_rows :: "nat list list \<Rightarrow> ndarray" where
  "of_rows rs = \<lparr>shape0 = length rs,
                 shape1 = (case rs of [] \<Rightarrow> 0 | r # _ \<Rightarrow> length r),
                 cell = (\<lambda>i j. rs ! i ! j)\<rparr>"

definition size_of :: "ndarray \<Rightarrow> nat" where
  \<comment> \<open>\<^verbatim>\<open>A.size\<close>\<close>
  "size_of A = shape0 A * shape1 A"

definition flatten :: "ndarray \<Rightarrow> nat list" where
  \<comment> \<open>the elements in row-major order\<close>
  "flatten A = concat (map (\<lambda>i. map (cell A i) [0..<shape1 A]) [0..<shape0 A])"

definition unique_counts :: "ndarray \<Rightarrow> nat list \<times> nat list" where
  \<comment> \<open>\<^verbatim>\<open>np.unique(A, return_counts=True)\<close>: the sorted distinct values and how often
      each occurs\<close>
  "unique_counts A =
     (let xs = flatten A; unique = sort (remdups xs)
      in (unique, map (count_list xs) unique))"

definition count_true :: "bool list \<Rightarrow> nat" where
  \<comment> \<open>\<^verbatim>\<open>.sum()\<close> of a boolean array\<close>
  "count_true bs = sum_list (map (\<lambda>b. if b then 1 else 0) bs)"

definition norm_index :: "nat \<Rightarrow> int \<Rightarrow> nat" where
  \<comment> \<open>a slice bound on an axis of length \<open>n\<close>: a negative bound counts from the end,
      and every bound is clipped to \<open>0..n\<close>\<close>
  "norm_index n k = (if k < 0 then nat (max (k + int n) 0) else min (nat k) n)"

definition slice2 :: "ndarray \<Rightarrow> int \<Rightarrow> int \<Rightarrow> int \<Rightarrow> int \<Rightarrow> ndarray" where
  \<comment> \<open>\<^verbatim>\<open>A[row_start:row_end, col_start:col_end]\<close>\<close>
  "slice2 A row_start row_end col_start col_end =
     (let r0 = norm_index (shape0 A) row_start; r1 = norm_index (shape0 A) row_end;
          c0 = norm_index (shape1 A) col_start; c1 = norm_index (shape1 A) col_end
      in \<lparr>shape0 = r1 - r0, shape1 = c1 - c0,
          cell = (\<lambda>i j. cell A (r0 + i) (c0 + j))\<rparr>)"

subsection \<open>Floats with the IEEE special values\<close>

datatype npfloat = Fin real | PInf | NInf | NaN

fun inf_of :: "real \<Rightarrow> npfloat" where
  \<comment> \<open>the infinity with the sign of \<open>s\<close>; NaN for \<open>s = 0\<close>\<close>
  "inf_of s = (if 0 < s then PInf else if s < 0 then NInf else NaN)"

fun np_add :: "npfloat \<Rightarrow> npfloat \<Rightarrow> npfloat" where
  "np_add (Fin x) (Fin y) = Fin (x + y)"
| "np_add NaN _ = NaN"
| "np_add _ NaN = NaN"
| "np_add PInf NInf = NaN"
| "np_add NInf PInf = NaN"
| "np_add PInf _ = PInf"
| "np_add _ PInf = PInf"
| "np_add NInf _ = NInf"
| "np_add _ NInf = NInf"

fun np_mul :: "npfloat \<Rightarrow> npfloat \<Rightarrow> npfloat" where
  "np_mul (Fin x) (Fin y) = Fin (x * y)"
| "np_mul NaN _ = NaN"
| "np_mul _ NaN = NaN"
| "np_mul PInf (Fin y) = inf_of y"
| "np_mul (Fin x) PInf = inf_of x"
| "np_mul NInf (Fin y) = inf_of (- y)"
| "np_mul (Fin x) NInf = inf_of (- x)"
| "np_mul PInf PInf = PInf"
| "np_mul NInf NInf = PInf"
| "np_mul PInf NInf = NInf"
| "np_mul NInf PInf = NInf"

fun np_div :: "npfloat \<Rightarrow> npfloat \<Rightarrow> npfloat" where
  \<comment> \<open>numpy's true division: a zero divisor gives an infinity or NaN (and a warning),
      never an exception\<close>
  "np_div (Fin x) (Fin y) = (if y = 0 then inf_of x else Fin (x / y))"
| "np_div NaN _ = NaN"
| "np_div _ NaN = NaN"
| "np_div (Fin x) PInf = Fin 0"
| "np_div (Fin x) NInf = Fin 0"
| "np_div PInf (Fin y) = (if y < 0 then NInf else PInf)"
| "np_div NInf (Fin y) = (if y < 0 then PInf else NInf)"
| "np_div PInf PInf = NaN"
| "np_div PInf NInf = NaN"
| "np_div NInf PInf = NaN"
| "np_div NInf NInf = NaN"

fun np_log :: "npfloat \<Rightarrow> npfloat" where
  \<comment> \<open>\<^verbatim>\<open>np.log\<close>: minus infinity at zero, NaN below\<close>
  "np_log (Fin x) = (if 0 < x then Fin (ln x) else if x = 0 then NInf else NaN)"
| "np_log PInf = PInf"
| "np_log NInf = NaN"
| "np_log NaN = NaN"

fun np_pos :: "npfloat \<Rightarrow> bool" where
  \<comment> \<open>the comparison \<^verbatim>\<open>x > 0\<close>; false for NaN\<close>
  "np_pos (Fin x) = (0 < x)"
| "np_pos PInf = True"
| "np_pos NInf = False"
| "np_pos NaN = False"

datatype error =
    CrsMismatch string
    \<comment> \<open>the ValueError of \<^verbatim>\<open>_calculate_metrics\<close>; its message names the raster's CRS\<close>
  | UnboundLocalError string
    \<comment> \<open>a local variable read before any assignment\<close>
  | ZeroSizeReduction
    \<comment> \<open>the ValueError of \<^verbatim>\<open>max\<close> on an empty array\<close>
  | ZeroDivisionError
    \<comment> \<open>division of Python floats by zero\<close>
  | External string
    \<comment> \<open>an exception raised inside a library call\<close>

subsection \<open>\<^verbatim>\<open>shdiandlpi.py\<close>: SHDI and LPI\<close>

definition calculate_shdi :: "ndarray \<Rightarrow> real" where
  \<comment> \<open>No division by zero is evaluated: \<open>counts\<close> is empty when \<open>total_pixels = 0\<close>;
      every proportion is positive, so the logarithm is finite.\<close>
  "calculate_shdi raster_data =
     (let (unique, counts) = unique_counts raster_data;
          total_pixels = size_of raster_data;
          proportions = map (\<lambda>c. real c / real total_pixels) counts
      in - sum_list (map (\<lambda>p. p * ln p) proportions))"

definition calculate_lpi :: "ndarray \<Rightarrow> nat \<Rightarrow> error + npfloat" where
  "calculate_lpi raster_data total_area =
     (let (unique, counts) = unique_counts raster_data
      in if counts = [] then Inl ZeroSizeReduction
         else let max_patch_area = Max (set counts)
              in Inr (np_div (Fin (real max_patch_area)) (Fin (real total_area))))"

subsection \<open>\<^verbatim>\<open>shdiandlpi.py\<close>: CONTAG\<close>

definition class_to_index :: "nat list \<Rightarrow> (nat \<rightharpoonup> nat)" where
  \<comment> \<open>\<^verbatim>\<open>{cls: idx for idx, cls in enumerate(unique)}\<close>; a later entry would win\<close>
  "class_to_index unique =
     map_of (rev (map (\<lambda>(idx, cls). (cls, idx)) (enumerate 0 unique)))"

definition neighbors :: "nat \<Rightarrow> nat \<Rightarrow> (int \<times> int) list" where
  \<comment> \<open>up, down, left, right\<close>
  "neighbors i j =
     [(int i - 1, int j), (int i + 1, int j), (int i, int j - 1), (int i, int j + 1)]"

definition inside :: "ndarray \<Rightarrow> int \<Rightarrow> int \<Rightarrow> bool" where
  \<comment> \<open>\<^verbatim>\<open>0 <= ni < raster_data.shape[0] and 0 <= nj < raster_data.shape[1]\<close>\<close>
  "inside raster_data ni nj \<longleftrightarrow>
     0 \<le> ni \<and> ni < int (shape0 raster_data) \<and> 0 \<le> nj \<and> nj < int (shape1 raster_data)"

definition zeros :: "nat \<Rightarrow> nat \<Rightarrow> ndarray" where
  "zeros m n = \<lparr>shape0 = m, shape1 = n, cell = (\<lambda>i k. 0)\<rparr>"

definition increment :: "ndarray \<Rightarrow> nat \<Rightarrow> nat \<Rightarrow> ndarray" where
  \<comment> \<open>\<^verbatim>\<open>M[a, b] += 1\<close>; the indices come from \<open>class_to_index\<close> and are in range\<close>
  "increment M a b = M\<lparr>cell := (cell M)(a := (cell M a)(b := cell M a b + 1))\<rparr>"

definition visit_neighbor ::
  "ndarray \<Rightarrow> (nat \<rightharpoonup> nat) \<Rightarrow> nat \<Rightarrow> int \<times> int \<Rightarrow> ndarray \<Rightarrow> ndarray" where
  "visit_neighbor raster_data c2i current_index = (\<lambda>(ni, nj) adjacency.
     if inside raster_data ni nj then
       (let neighbor_class = cell raster_data (nat ni) (nat nj)
        in case c2i neighbor_class of
             None \<Rightarrow> adjacency
           | Some neighbor_index \<Rightarrow> increment adjacency current_index neighbor_index)
     else adjacency)"

definition visit_pixel ::
  "ndarray \<Rightarrow> (nat \<rightharpoonup> nat) \<Rightarrow> nat \<Rightarrow> nat \<Rightarrow> ndarray \<Rightarrow> ndarray" where
  "visit_pixel raster_data c2i i j adjacency =
     (let current_class = cell raster_data i j
      in case c2i current_class of
           None \<Rightarrow> adjacency
         | Some current_index \<Rightarrow>
             fold (visit_neighbor raster_data c2i current_index) (neighbors i j) adjacency)"

definition adjacency_matrix :: "ndarray \<Rightarrow> ndarray" where
  \<comment> \<open>the first double loop of \<^verbatim>\<open>_calculate_contag\<close>\<close>
  "adjacency_matrix raster_data =
     (let (unique, counts) = unique_counts raster_data;
          m = length unique;
          c2i = class_to_index unique
      in fold (\<lambda>i. fold (\<lambda>j. visit_pixel raster_data c2i i j) [0..<shape1 raster_data])
           [0..<shape0 raster_data] (zeros m m))"

definition contag_term ::
  "npfloat list \<Rightarrow> ndarray \<Rightarrow> nat \<Rightarrow> nat \<Rightarrow> nat \<Rightarrow> npfloat \<Rightarrow> npfloat" where
  "contag_term proportions adjacency total_adjacency i k contag =
     (if total_adjacency > 0 then
        (let p_ik = np_mul (proportions ! i)
                      (Fin (real (cell adjacency i k) / real total_adjacency))
         in if np_pos p_ik then np_add contag (np_mul p_ik (np_log p_ik)) else contag)
      else contag)"

definition contag_denominator :: "nat \<Rightarrow> npfloat" where
  \<comment> \<open>\<^verbatim>\<open>2 * np.log(m)\<close>\<close>
  "contag_denominator m = np_mul (Fin 2) (np_log (Fin (real m)))"

definition calculate_contag :: "ndarray \<Rightarrow> nat \<Rightarrow> npfloat" where
  "calculate_contag raster_data total_area =
     (let (unique, counts) = unique_counts raster_data;
          m = length unique;
          proportions = map (\<lambda>c. np_div (Fin (real c)) (Fin (real total_area))) counts;
          adjacency = adjacency_matrix raster_data;
          total_adjacency = sum_list (flatten adjacency);
          contag = fold (\<lambda>i. fold (contag_term proportions adjacency total_adjacency i) [0..<m])
                     [0..<m] (Fin 0)
      in np_mul (np_add (Fin 1) (np_div contag (contag_denominator m))) (Fin 100))"

subsection \<open>\<^verbatim>\<open>pdanded.py\<close>: PD and ED\<close>

definition patch_density :: "ndarray \<Rightarrow> nat \<Rightarrow> real \<Rightarrow> real \<Rightarrow> npfloat" where
  "patch_density raster_data class_val cell_area total_area =
     (let class_area =
            real (count_true (map (\<lambda>v. v = class_val) (flatten raster_data))) * cell_area
      in np_div (Fin class_area) (Fin total_area))"

definition edge_neighbor ::
  "ndarray \<Rightarrow> nat \<Rightarrow> real \<Rightarrow> real \<Rightarrow> nat \<Rightarrow> int \<times> int \<Rightarrow> real \<Rightarrow> real" where
  "edge_neighbor raster_data class_val res_x res_y i = (\<lambda>(ni, nj) edge_length.
     if inside raster_data ni nj then
       (if cell raster_data (nat ni) (nat nj) \<noteq> class_val
        then edge_length + (if ni = int i then res_x else res_y)
        else edge_length)
     else edge_length)"

definition edge_pixel ::
  "ndarray \<Rightarrow> nat \<Rightarrow> real \<Rightarrow> real \<Rightarrow> nat \<Rightarrow> nat \<Rightarrow> real \<Rightarrow> real" where
  "edge_pixel raster_data class_val res_x res_y i j edge_length =
     (if cell raster_data i j \<noteq> class_val then edge_length
      else fold (edge_neighbor raster_data class_val res_x res_y i) (neighbors i j)
             edge_length)"

definition calculate_edge_length :: "ndarray \<Rightarrow> nat \<Rightarrow> real \<Rightarrow> real \<Rightarrow> real" where
  "calculate_edge_length raster_data class_val res_x res_y =
     fold (\<lambda>i. fold (edge_pixel raster_data class_val res_x res_y i)
                  [0..<shape1 raster_data])
       [0..<shape0 raster_data] 0"

subsection \<open>Loading a raster\<close>

text \<open>
  The affine transform of a raster is an object of the \<^verbatim>\<open>affine\<close> package: the model
  keeps the two coefficients the scripts read and the map \<^verbatim>\<open>~transform * (x, y)\<close> from
  world to fractional pixel coordinates, which raises when the transform is degenerate
  (\<open>Inl\<close> carries the name of the exception).
\<close>

record affine =
  coeff_a :: real
  coeff_e :: real
  inv_apply :: "real \<times> real \<Rightarrow> string + real \<times> real"

record meta =
  meta_crs :: string
  meta_transform :: affine

text \<open>
  An opened dataset: \<open>src_crs\<close> is \<^verbatim>\<open>src.crs.to_string()\<close>, \<open>src_band1\<close> is
  \<^verbatim>\<open>src.read(1)\<close>. The dataset's \<^verbatim>\<open>meta\<close> describes the dataset itself, so its
  \<^verbatim>\<open>crs\<close> entry is \<^verbatim>\<open>src.crs\<close>.
\<close>

record raster_source =
  src_crs :: string
  src_transform :: affine
  src_band1 :: ndarray

definition src_meta :: "raster_source \<Rightarrow> meta" where
  "src_meta src = \<lparr>meta_crs = src_crs src, meta_transform = src_transform src\<rparr>"

definition load_raster :: "string option \<Rightarrow> raster_source \<Rightarrow> error + ndarray \<times> meta" where
  \<comment> \<open>\<open>warp\<close> is the outcome of the \<^verbatim>\<open>rasterio.warp\<close> calls of the first branch:
      \<open>Some exn\<close> when one of them raises, \<open>None\<close> when they return. That branch
      assigns \<^verbatim>\<open>data\<close> only, and \<^verbatim>\<open>return data, meta\<close> then reads the unassigned
      \<^verbatim>\<open>meta\<close>.\<close>
  "load_raster warp src =
     (if src_crs src \<noteq> ''EPSG:32649'' then
        (case warp of
           Some exn \<Rightarrow> Inl (External exn)
         | None \<Rightarrow> Inl (UnboundLocalError ''meta''))
      else Inr (src_band1 src, src_meta src))"

subsection \<open>The zone loops\<close>

type_synonym bounds = "real \<times> real \<times> real \<times> real"

definition py_int :: "real \<Rightarrow> int" where
  \<comment> \<open>\<^verbatim>\<open>int(x)\<close> truncates towards zero\<close>
  "py_int x = (if 0 \<le> x then \<lfloor>x\<rfloor> else \<lceil>x\<rceil>)"

fun for_each :: "('a \<Rightarrow> error + 'b) \<Rightarrow> 'a list \<Rightarrow> error + 'b list" where
  \<comment> \<open>a \<^verbatim>\<open>for\<close> loop that stores one result per element; an exception leaves it\<close>
  "for_each f [] = Inr []"
| "for_each f (z # zs) =
     (case f z of
        Inl e \<Rightarrow> Inl e
      | Inr r \<Rightarrow> (case for_each f zs of Inl e \<Rightarrow> Inl e | Inr rs \<Rightarrow> Inr (r # rs)))"

record shdi_row =
  SHDI :: npfloat
  LPI :: npfloat
  CONTAG :: npfloat

definition nan_shdi_row :: shdi_row where
  "nan_shdi_row = \<lparr>SHDI = NaN, LPI = NaN, CONTAG = NaN\<rparr>"

definition zone_shdi :: "ndarray \<Rightarrow> meta \<Rightarrow> bounds \<Rightarrow> error + shdi_row" where
  \<comment> \<open>the body of the zone loop of \<^verbatim>\<open>shdiandlpi.py\<close>\<close>
  "zone_shdi data meta = (\<lambda>(minx, miny, maxx, maxy).
     case inv_apply (meta_transform meta) (minx, maxy) of
       Inl exn \<Rightarrow> Inl (External exn)
     | Inr (col_start, row_start) \<Rightarrow>
     (case inv_apply (meta_transform meta) (maxx, miny) of
       Inl exn \<Rightarrow> Inl (External exn)
     | Inr (col_end, row_end) \<Rightarrow>
       if col_start < 0 \<or> row_start < 0 \<or> col_end > real (shape1 data)
          \<or> row_end > real (shape0 data)
       then Inr nan_shdi_row
       else
         (let clipped_data = slice2 data (py_int row_start) (py_int row_end)
                               (py_int col_start) (py_int col_end)
          in if size_of clipped_data = 0
                \<or> count_true (map (\<lambda>v. v \<noteq> 255) (flatten clipped_data)) = 0
             then Inr nan_shdi_row
             else
               (let total_area = size_of clipped_data;
                    shdi_value = calculate_shdi clipped_data
                in case calculate_lpi clipped_data total_area of
                     Inl e \<Rightarrow> Inl e
                   | Inr lpi_value \<Rightarrow>
                       Inr \<lparr>SHDI = Fin shdi_value, LPI = lpi_value,
                            CONTAG = calculate_contag clipped_data total_area\<rparr>))))"

definition calculate_metrics_shdi ::
  "string option \<Rightarrow> raster_source \<Rightarrow> bounds list \<Rightarrow> error + shdi_row list" where
  \<comment> \<open>\<^verbatim>\<open>_calculate_metrics\<close> of \<^verbatim>\<open>shdiandlpi.py\<close>; \<open>zones\<close> are the bounds of the
      fishnet cells in the raster's coordinate reference\<close>
  "calculate_metrics_shdi warp src zones =
     (case load_raster warp src of
        Inl e \<Rightarrow> Inl e
      | Inr (data, meta) \<Rightarrow>
          (let raster_crs = meta_crs meta
           in if raster_crs \<noteq> ''EPSG:32649'' then Inl (CrsMismatch raster_crs)
              else for_each (zone_shdi data meta) zones))"

type_synonym pded_row = "(nat \<times> npfloat \<times> npfloat) list"

definition nan_pded_row :: pded_row where
  \<comment> \<open>\<open>(class_val, PD, ED)\<close> for the classes 1 to 6\<close>
  "nan_pded_row = map (\<lambda>class_val. (class_val, NaN, NaN)) [1..<7]"

definition class_pded ::
  "ndarray \<Rightarrow> real \<Rightarrow> real \<Rightarrow> real \<Rightarrow> real \<Rightarrow> nat \<Rightarrow> error + nat \<times> npfloat \<times> npfloat" where
  \<comment> \<open>the body of the class loop; \<^verbatim>\<open>edge_length / total_area\<close> divides Python floats\<close>
  "class_pded clipped_data res_x res_y cell_area total_area class_val =
     (let pd_value = patch_density clipped_data class_val cell_area total_area;
          edge_length = calculate_edge_length clipped_data class_val res_x res_y
      in if total_area = 0 then Inl ZeroDivisionError
         else Inr (class_val, pd_value, Fin (edge_length / total_area)))"

definition zone_pded :: "ndarray \<Rightarrow> meta \<Rightarrow> bounds \<Rightarrow> error + pded_row" where
  \<comment> \<open>the body of the zone loop of \<^verbatim>\<open>pdanded.py\<close>\<close>
  "zone_pded data meta = (\<lambda>(minx, miny, maxx, maxy).
     let res_x = \<bar>coeff_a (meta_transform meta)\<bar>;
         res_y = \<bar>coeff_e (meta_transform meta)\<bar>;
         cell_area = res_x * res_y
     in
     case inv_apply (meta_transform meta) (minx, maxy) of
       Inl exn \<Rightarrow> Inl (External exn)
     | Inr (col_start, row_start) \<Rightarrow>
     (case inv_apply (meta_transform meta) (maxx, miny) of
       Inl exn \<Rightarrow> Inl (External exn)
     | Inr (col_end, row_end) \<Rightarrow>
       if col_start < 0 \<or> row_start < 0 \<or> col_end > real (shape1 data)
          \<or> row_end > real (shape0 data)
       then Inr nan_pded_row
       else
         (let clipped_data = slice2 data (py_int row_start) (py_int row_end)
                               (py_int col_start) (py_int col_end)
          in if size_of clipped_data = 0
                \<or> count_true (map (\<lambda>v. v \<noteq> 255) (flatten clipped_data)) = 0
             then Inr nan_pded_row
             else
               (let total_area = real (size_of clipped_data) * cell_area
                in for_each (class_pded clipped_data res_x res_y cell_area total_area)
                     [1..<7]))))"

definition calculate_metrics_pded ::
  "string option \<Rightarrow> raster_source \<Rightarrow> bounds list \<Rightarrow> error + pded_row list" where
  \<comment> \<open>\<^verbatim>\<open>_calculate_metrics\<close> of \<^verbatim>\<open>pdanded.py\<close>\<close>
  "calculate_metrics_pded warp src zones =
     (case load_raster warp src of
        Inl e \<Rightarrow> Inl e
      | Inr (data, meta) \<Rightarrow>
          (let raster_crs = meta_crs meta
           in if raster_crs \<noteq> ''EPSG:32649'' then Inl (CrsMismatch raster_crs)
              else for_each (zone_pded data meta) zones))"

section \<open>The notions of the specification\<close>

definition nodata :: nat where
  \<comment> \<open>the nodata sentinel of the validity check\<close>
  "nodata = 255"

definition pixels :: "ndarray \<Rightarrow> (nat \<times> nat) set" where
  "pixels A = {..<shape0 A} \<times> {..<shape1 A}"

definition classes_present :: "ndarray \<Rightarrow> nat set" where
  \<comment> \<open>the distinct pixel values of a window\<close>
  "classes_present A = (\<lambda>(i, j). cell A i j) ` pixels A"

definition pixel_count :: "ndarray \<Rightarrow> nat \<Rightarrow> nat" where
  "pixel_count A c = card {p \<in> pixels A. cell A (fst p) (snd p) = c}"

definition valid_window :: "ndarray \<Rightarrow> bool" where
  \<comment> \<open>non-empty and not all nodata\<close>
  "valid_window A \<longleftrightarrow>
     size_of A \<noteq> 0 \<and> (\<exists>p \<in> pixels A. cell A (fst p) (snd p) \<noteq> nodata)"

definition area_fraction :: "ndarray \<Rightarrow> nat \<Rightarrow> real" where
  \<comment> \<open>the share of a value among all pixels of the window\<close>
  "area_fraction A c = real (pixel_count A c) / real (size_of A)"

definition shdi_all_values :: "ndarray \<Rightarrow> real" where
  "shdi_all_values A =
     - (\<Sum>c\<in>classes_present A. area_fraction A c * ln (area_fraction A c))"

definition total_valid_pixels :: "ndarray \<Rightarrow> nat" where
  "total_valid_pixels A = card {p \<in> pixels A. cell A (fst p) (snd p) \<noteq> nodata}"

definition valid_fraction :: "ndarray \<Rightarrow> nat \<Rightarrow> real" where
  \<comment> \<open>the share of a value among the pixels that are not nodata\<close>
  "valid_fraction A c = real (pixel_count A c) / real (total_valid_pixels A)"

definition shdi_valid_only :: "ndarray \<Rightarrow> real" where
  \<comment> \<open>SHDI with the nodata sentinel left out of the classes and of the denominator\<close>
  "shdi_valid_only A =
     - (\<Sum>c\<in>classes_present A - {nodata}. valid_fraction A c * ln (valid_fraction A c))"

definition lpi_all_values :: "ndarray \<Rightarrow> real" where
  "lpi_all_values A = real (Max (pixel_count A ` classes_present A)) / real (size_of A)"

definition lpi_valid_only :: "ndarray \<Rightarrow> real" where
  \<comment> \<open>LPI with the nodata sentinel left out of the candidates for the maximum\<close>
  "lpi_valid_only A =
     real (Max (pixel_count A ` (classes_present A - {nodata}))) / real (size_of A)"

definition invalid_window :: "ndarray \<Rightarrow> real \<Rightarrow> real \<Rightarrow> real \<Rightarrow> real \<Rightarrow> bool" where
  \<comment> \<open>the fractional pixel bounds leave the raster, or the clipped sub-grid is empty or
      all nodata\<close>
  "invalid_window data col_start row_start col_end row_end \<longleftrightarrow>
     col_start < 0 \<or> row_start < 0 \<or> col_end > real (shape1 data)
     \<or> row_end > real (shape0 data)
     \<or> \<not> valid_window (slice2 data (py_int row_start) (py_int row_end)
                        (py_int col_start) (py_int col_end))"

definition pixel_value :: "ndarray \<Rightarrow> nat \<times> nat \<Rightarrow> nat" where
  "pixel_value A p = cell A (fst p) (snd p)"

definition adjacent :: "nat \<times> nat \<Rightarrow> nat \<times> nat \<Rightarrow> bool" where
  \<comment> \<open>4-connected: next to each other in a row or in a column\<close>
  "adjacent p q \<longleftrightarrow>
     (fst p = fst q \<and> (snd p = Suc (snd q) \<or> snd q = Suc (snd p)))
     \<or> (snd p = snd q \<and> (fst p = Suc (fst q) \<or> fst q = Suc (fst p)))"

definition window_neighbors :: "ndarray \<Rightarrow> nat \<times> nat \<Rightarrow> (nat \<times> nat) set" where
  \<comment> \<open>the in-bounds 4-connected neighbours of a pixel\<close>
  "window_neighbors A p = {q \<in> pixels A. adjacent p q}"

definition adjacent_pairs :: "ndarray \<Rightarrow> ((nat \<times> nat) \<times> (nat \<times> nat)) set" where
  \<comment> \<open>the ordered pairs of 4-connected pixels of a window\<close>
  "adjacent_pairs A = {(p, q). p \<in> pixels A \<and> q \<in> pixels A \<and> adjacent p q}"

definition edge_length_spec :: "ndarray \<Rightarrow> nat \<Rightarrow> real \<Rightarrow> real \<Rightarrow> real" where
  \<comment> \<open>over every pixel of class \<open>c\<close> and every in-bounds neighbour of another class:
      the pixel width for a neighbour in the same row, the pixel height for a neighbour
      in the same column\<close>
  "edge_length_spec A c pixel_width pixel_height =
     (\<Sum>p \<in> {p \<in> pixels A. pixel_value A p = c}.
        \<Sum>q \<in> {q \<in> window_neighbors A p. pixel_value A q \<noteq> c}.
          if fst q = fst p then pixel_width else pixel_height)"

definition nbrs :: "ndarray \<Rightarrow> nat \<Rightarrow> nat \<Rightarrow> (nat \<times> nat) list" where
  \<comment> \<open>the neighbours that pass the bounds check, in the order of the scan\<close>
  "nbrs A i j =
     (if 0 < i then [(i - 1, j)] else []) @
     (if i + 1 < shape0 A then [(i + 1, j)] else []) @
     (if 0 < j then [(i, j - 1)] else []) @
     (if j + 1 < shape1 A then [(i, j + 1)] else [])"

definition edge_weight ::
  "ndarray \<Rightarrow> nat \<Rightarrow> real \<Rightarrow> real \<Rightarrow> nat \<times> nat \<Rightarrow> nat \<times> nat \<Rightarrow> real" where
  \<comment> \<open>what the neighbour \<open>q\<close> of the pixel \<open>p\<close> adds to the edge length of class \<open>c\<close>\<close>
  "edge_weight A c rx ry p q =
     (if pixel_value A q \<noteq> c then (if fst q = fst p then rx else ry) else 0)"

definition index_pairs ::
  "ndarray \<Rightarrow> (nat \<rightharpoonup> nat) \<Rightarrow> nat \<Rightarrow> nat \<Rightarrow> ((nat \<times> nat) \<times> (nat \<times> nat)) set" where
  \<comment> \<open>the ordered adjacent pairs whose classes have the indices \<open>x\<close> and \<open>y\<close>\<close>
  "index_pairs A c2i x y =
     {(p, q). (p, q) \<in> adjacent_pairs A \<and> c2i (pixel_value A p) = Some x
              \<and> c2i (pixel_value A q) = Some y}"

definition visit_step ::
  "ndarray \<Rightarrow> (nat \<rightharpoonup> nat) \<Rightarrow> nat \<Rightarrow> nat \<times> nat \<Rightarrow> ndarray \<Rightarrow> ndarray" where
  \<comment> \<open>what \<open>visit_neighbor\<close> does at a neighbour that passed the bounds check\<close>
  "visit_step A c2i ci q M =
     (case c2i (pixel_value A q) of None \<Rightarrow> M | Some k \<Rightarrow> increment M ci k)"

definition scan :: "ndarray \<Rightarrow> (nat \<rightharpoonup> nat) \<Rightarrow> ndarray \<Rightarrow> ndarray" where
  \<comment> \<open>the double loop of \<open>adjacency_matrix\<close> from any starting matrix\<close>
  "scan A c2i M =
     fold (\<lambda>i. fold (\<lambda>j. visit_pixel A c2i i j) [0..<shape1 A]) [0..<shape0 A] M"

definition np_sum :: "npfloat list \<Rightarrow> npfloat" where
  "np_sum xs = fold (\<lambda>x acc. np_add acc x) xs (Fin 0)"

definition north_up :: "real \<Rightarrow> real \<Rightarrow> real \<Rightarrow> real \<Rightarrow> affine" where
  \<comment> \<open>an example transform: origin \<open>(x0, y0)\<close>, pixels \<open>w\<close> wide and \<open>h\<close> high, rows
      running south\<close>
  "north_up x0 y0 w h =
     \<lparr>coeff_a = w, coeff_e = - h,
      inv_apply = (\<lambda>(x, y). if w = 0 \<or> h = 0 then Inl ''TransformNotInvertibleError''
                            else Inr ((x - x0) / w, (y0 - y) / h))\<rparr>"

definition example_raster :: "string \<Rightarrow> raster_source" where
  \<comment> \<open>an example dataset of 2 by 2 pixels of size 1, with the given CRS\<close>
  "example_raster crs =
     \<lparr>src_crs = crs, src_transform = north_up 0 2 1 1,
      src_band1 = of_rows [[2, 3], [4, 5]]\<rparr>"

section \<open>Properties\<close>

subsection \<open>Counting pixels\<close>

lemma length_filter_flatten:
  "length (filter P (flatten A)) = card {p \<in> pixels A. P (cell A (fst p) (snd p))}"
proof -
  let ?B = "\<lambda>i. {j. j < shape1 A \<and> P (cell A i j)}"
  have row: "length (filter (\<lambda>j. P (cell A i j)) [0..<shape1 A]) = card (?B i)" for i
  proof -
    have "{k. k < shape1 A \<and> P (cell A i ([0..<shape1 A] ! k))} = ?B i"
      by auto
    then show ?thesis by (simp add: length_filter_conv_card)
  qed
  have "length (filter P (flatten A)) = (\<Sum>i<shape0 A. card (?B i))"
    unfolding flatten_def
    by (simp add: filter_concat length_concat comp_def row filter_map
        interv_sum_list_conv_sum_set_nat atLeast0LessThan)
  also have "\<dots> = card (SIGMA i:{..<shape0 A}. ?B i)"
    by (subst card_SigmaI) auto
  also have "(SIGMA i:{..<shape0 A}. ?B i) = {p \<in> pixels A. P (cell A (fst p) (snd p))}"
    by (auto simp: pixels_def)
  finally show ?thesis .
qed

lemma count_list_flatten: "count_list (flatten A) c = pixel_count A c"
proof -
  have "filter ((=) c) (flatten A) = filter (\<lambda>v. v = c) (flatten A)"
    by (rule filter_cong) auto
  then show ?thesis
    using length_filter_flatten [of "\<lambda>v. v = c" A]
    by (simp add: pixel_count_def count_list_eq_length_filter)
qed

lemma set_flatten: "set (flatten A) = classes_present A"
  by (auto simp: flatten_def classes_present_def pixels_def)

lemma length_flatten: "length (flatten A) = size_of A"
  using length_filter_flatten [of "\<lambda>v. True" A]
  by (simp add: pixels_def size_of_def)

lemma count_true_filter: "count_true (map P xs) = length (filter P xs)"
  by (induction xs) (simp_all add: count_true_def)

lemma valid_window_code:
  "valid_window A \<longleftrightarrow>
     \<not> (size_of A = 0 \<or> count_true (map (\<lambda>v. v \<noteq> 255) (flatten A)) = 0)"
proof -
  have "finite {p \<in> pixels A. cell A (fst p) (snd p) \<noteq> 255}"
    by (simp add: pixels_def)
  then have "card {p \<in> pixels A. cell A (fst p) (snd p) \<noteq> 255} = 0
      \<longleftrightarrow> \<not> (\<exists>p \<in> pixels A. cell A (fst p) (snd p) \<noteq> 255)"
    by auto
  then show ?thesis
    by (simp add: valid_window_def nodata_def count_true_filter length_filter_flatten)
qed

lemma valid_window_size: "valid_window A \<Longrightarrow> 0 < size_of A"
  by (simp add: valid_window_def)

lemma finite_classes_present: "finite (classes_present A)"
  by (simp add: classes_present_def pixels_def)

lemma classes_present_nonempty: "0 < size_of A \<Longrightarrow> classes_present A \<noteq> {}"
  by (auto simp: classes_present_def pixels_def size_of_def)

lemma pixel_count_le_size: "pixel_count A c \<le> size_of A"
  using count_le_length [of "flatten A" c] by (simp add: count_list_flatten length_flatten)

lemma counts_of_unique: "snd (unique_counts A) = [] \<longleftrightarrow> classes_present A = {}"
proof -
  have "sort (remdups (flatten A)) = [] \<longleftrightarrow> set (sort (remdups (flatten A))) = {}"
    by (simp only: set_empty)
  then show ?thesis
    by (simp add: unique_counts_def Let_def set_flatten)
qed

lemma set_counts: "set (snd (unique_counts A)) = pixel_count A ` classes_present A"
  by (simp add: unique_counts_def Let_def set_flatten count_list_flatten [abs_def])

subsection \<open>SHDI\<close>

text \<open>
  C1 (as amended). SHDI is \<open>- \<Sum> p\<^sub>c ln p\<^sub>c\<close> over every distinct pixel value of the
  window, the nodata sentinel included, where \<open>p\<^sub>c\<close> is the count of the value divided
  by the number of all pixels of the window.
\<close>

theorem shdi_over_all_values: "calculate_shdi A = shdi_all_values A"
proof -
  let ?xs = "flatten A"
  have d: "distinct (sort (remdups ?xs))" by simp
  have s: "set (sort (remdups ?xs)) = classes_present A"
    by (simp add: set_flatten)
  have "calculate_shdi A =
      - sum_list (map (\<lambda>c. area_fraction A c * ln (area_fraction A c)) (sort (remdups ?xs)))"
    by (simp add: calculate_shdi_def unique_counts_def Let_def comp_def area_fraction_def
        count_list_flatten)
  also have "\<dots> = shdi_all_values A"
    unfolding shdi_all_values_def
    by (simp only: sum_list_distinct_conv_sum_set [OF d] s)
  finally show ?thesis .
qed

lemma flatten_2_255: "flatten (of_rows [[2, 255]]) = [2, 255]"
  by (simp add: flatten_def of_rows_def)

lemma size_2_255: "size_of (of_rows [[2, 255]]) = 2"
  by (simp add: size_of_def of_rows_def)

text \<open>
  C1 as stated fails on the valid window \<open>[[2, 255]]\<close>: the code counts the sentinel as a
  class and in the denominator and returns \<open>ln 2\<close>, the stated formula gives \<open>0\<close>.
\<close>

theorem shdi_counts_nodata_counterexample:
  "valid_window (of_rows [[2, 255]]) \<and>
   calculate_shdi (of_rows [[2, 255]]) = ln 2 \<and>
   shdi_valid_only (of_rows [[2, 255]]) = 0 \<and>
   calculate_shdi (of_rows [[2, 255]]) \<noteq> shdi_valid_only (of_rows [[2, 255]])"
proof -
  let ?A = "of_rows [[2, 255]]"
  have v: "valid_window ?A"
    by (simp add: valid_window_code flatten_2_255 count_true_def size_2_255)
  have code: "calculate_shdi ?A = ln 2"
    by (simp add: calculate_shdi_def unique_counts_def flatten_2_255 size_2_255 ln_div)
  have tv: "total_valid_pixels ?A = 1"
    using length_filter_flatten [of "\<lambda>v. v \<noteq> nodata" ?A]
    by (simp add: total_valid_pixels_def flatten_2_255 nodata_def)
  have pc: "pixel_count ?A 2 = 1"
    using count_list_flatten [of ?A 2] by (simp add: flatten_2_255)
  have cp: "classes_present ?A - {nodata} = {2}"
    using set_flatten [of ?A] by (auto simp: flatten_2_255 nodata_def)
  have claim: "shdi_valid_only ?A = 0"
    by (simp add: shdi_valid_only_def cp valid_fraction_def tv pc)
  show ?thesis using v code claim by simp
qed

subsection \<open>LPI\<close>

text \<open>
  C4 (as amended). For every valid window, LPI is the largest pixel count among all
  distinct pixel values of the window, the nodata sentinel included, divided by the
  number of pixels of the window; it is computed without error and lies in \<open>[0, 1]\<close>.
\<close>

theorem lpi_over_all_values:
  assumes "valid_window A"
  shows "calculate_lpi A (size_of A) = Inr (Fin (lpi_all_values A))
         \<and> 0 \<le> lpi_all_values A \<and> lpi_all_values A \<le> 1"
proof -
  have sz: "0 < size_of A" using assms by (rule valid_window_size)
  then have ne: "classes_present A \<noteq> {}" by (rule classes_present_nonempty)
  have "calculate_lpi A (size_of A) = Inr (Fin (lpi_all_values A))"
    using sz ne counts_of_unique [of A] set_counts [of A]
    by (simp add: calculate_lpi_def lpi_all_values_def split_beta Let_def)
  moreover have "Max (pixel_count A ` classes_present A) \<le> size_of A"
    using ne by (simp add: finite_classes_present pixel_count_le_size)
  then have "lpi_all_values A \<le> 1"
    using sz by (simp add: lpi_all_values_def)
  moreover have "0 \<le> lpi_all_values A"
    by (simp add: lpi_all_values_def)
  ultimately show ?thesis by simp
qed

lemma flatten_2_255_255: "flatten (of_rows [[2, 255, 255]]) = [2, 255, 255]"
  by (simp add: flatten_def of_rows_def)

lemma size_2_255_255: "size_of (of_rows [[2, 255, 255]]) = 3"
  by (simp add: size_of_def of_rows_def)

lemma valid_2_255_255: "valid_window (of_rows [[2, 255, 255]])"
  by (simp add: valid_window_code flatten_2_255_255 count_true_def size_2_255_255)

theorem lpi_over_all_values_witness:
  "valid_window (of_rows [[2, 255, 255]]) \<and>
   calculate_lpi (of_rows [[2, 255, 255]]) (size_of (of_rows [[2, 255, 255]])) =
     Inr (Fin (lpi_all_values (of_rows [[2, 255, 255]])))"
  using lpi_over_all_values [OF valid_2_255_255] valid_2_255_255 by simp

text \<open>
  C4 as stated fails on the valid window \<open>[[2, 255, 255]]\<close>: the code takes the sentinel's
  count as the maximum and returns \<open>2/3\<close>, the stated formula gives \<open>1/3\<close>.
\<close>

theorem lpi_counts_nodata_counterexample:
  "valid_window (of_rows [[2, 255, 255]]) \<and>
   calculate_lpi (of_rows [[2, 255, 255]]) (size_of (of_rows [[2, 255, 255]])) =
     Inr (Fin (2 / 3)) \<and>
   lpi_valid_only (of_rows [[2, 255, 255]]) = 1 / 3 \<and>
   calculate_lpi (of_rows [[2, 255, 255]]) (size_of (of_rows [[2, 255, 255]])) \<noteq>
     Inr (Fin (lpi_valid_only (of_rows [[2, 255, 255]])))"
proof -
  let ?A = "of_rows [[2, 255, 255]]"
  have code: "calculate_lpi ?A 3 = Inr (Fin (2 / 3))"
    by (simp add: calculate_lpi_def unique_counts_def flatten_2_255_255)
  have cp: "classes_present ?A - {nodata} = {2}"
    using set_flatten [of ?A] by (auto simp: flatten_2_255_255 nodata_def)
  have pc: "pixel_count ?A 2 = 1"
    using count_list_flatten [of ?A 2] by (simp add: flatten_2_255_255)
  have claim: "lpi_valid_only ?A = 1 / 3"
    by (simp add: lpi_valid_only_def cp pc size_2_255_255)
  show ?thesis using valid_2_255_255 code claim by (simp add: size_2_255_255)
qed

subsection \<open>The CRS check\<close>

lemma for_each_not_crs:
  assumes "\<And>z. f z \<noteq> Inl (CrsMismatch s)"
  shows "for_each f zs \<noteq> Inl (CrsMismatch s)"
  using assms by (induction zs) (auto split: sum.splits)

lemma class_pded_not_crs: "class_pded A rx ry ca ta c \<noteq> Inl (CrsMismatch s)"
  by (simp add: class_pded_def Let_def)

lemma zone_shdi_not_crs: "zone_shdi data meta z \<noteq> Inl (CrsMismatch s)"
  by (auto simp: zone_shdi_def calculate_lpi_def Let_def split: sum.splits prod.splits if_splits)

lemma classes_not_crs: "for_each (class_pded A rx ry ca ta) cs \<noteq> Inl (CrsMismatch s)"
  by (rule for_each_not_crs) (rule class_pded_not_crs)

lemma zone_pded_not_crs: "zone_pded data meta z \<noteq> Inl (CrsMismatch s)"
  by (auto simp: zone_pded_def Let_def classes_not_crs split: sum.splits prod.splits if_splits)

text \<open>
  C9. The CRS check of \<^verbatim>\<open>_calculate_metrics\<close> is evaluated only when \<^verbatim>\<open>_load_raster\<close>
  returns, and then its condition is false: the returned \<^verbatim>\<open>meta\<close> carries
  \<open>EPSG:32649\<close>. A raster with another CRS makes \<^verbatim>\<open>_load_raster\<close> fail, so neither
  script ever raises the CRS-mismatch ValueError.
\<close>

theorem crs_check_unreachable:
  "(\<forall>data meta. load_raster warp src = Inr (data, meta) \<longrightarrow> meta_crs meta = ''EPSG:32649'')
   \<and> (src_crs src \<noteq> ''EPSG:32649'' \<longrightarrow> isl (load_raster warp src))
   \<and> calculate_metrics_shdi warp src zones \<noteq> Inl (CrsMismatch s)
   \<and> calculate_metrics_pded warp src zones \<noteq> Inl (CrsMismatch s)"
proof -
  have a: "meta_crs meta = ''EPSG:32649''" if "load_raster warp src = Inr (data, meta)"
    for data meta
    using that by (auto simp: load_raster_def src_meta_def split: if_splits option.splits)
  have b: "isl (load_raster warp src)" if "src_crs src \<noteq> ''EPSG:32649''"
    using that by (simp add: load_raster_def split: option.splits)
  have c: "calculate_metrics_shdi warp src zones \<noteq> Inl (CrsMismatch s)"
  proof (cases "load_raster warp src")
    case (Inl e)
    then have "e \<noteq> CrsMismatch s"
      by (auto simp: load_raster_def split: if_splits option.splits)
    with Inl show ?thesis by (simp add: calculate_metrics_shdi_def)
  next
    case (Inr dm)
    obtain data meta where dm: "dm = (data, meta)" by (cases dm)
    with Inr a have "meta_crs meta = ''EPSG:32649''" by simp
    with Inr dm show ?thesis
      using for_each_not_crs [of "zone_shdi data meta" s zones, OF zone_shdi_not_crs]
      by (simp add: calculate_metrics_shdi_def)
  qed
  have d: "calculate_metrics_pded warp src zones \<noteq> Inl (CrsMismatch s)"
  proof (cases "load_raster warp src")
    case (Inl e)
    then have "e \<noteq> CrsMismatch s"
      by (auto simp: load_raster_def split: if_splits option.splits)
    with Inl show ?thesis by (simp add: calculate_metrics_pded_def)
  next
    case (Inr dm)
    obtain data meta where dm: "dm = (data, meta)" by (cases dm)
    with Inr a have "meta_crs meta = ''EPSG:32649''" by simp
    with Inr dm show ?thesis
      using for_each_not_crs [of "zone_pded data meta" s zones, OF zone_pded_not_crs]
      by (simp add: calculate_metrics_pded_def)
  qed
  from a b c d show ?thesis by blast
qed


theorem crs_check_unreachable_witness:
  "load_raster None (example_raster ''EPSG:32649'') =
     Inr (src_band1 (example_raster ''EPSG:32649''), src_meta (example_raster ''EPSG:32649''))
   \<and> meta_crs (src_meta (example_raster ''EPSG:32649'')) = ''EPSG:32649''
   \<and> src_crs (example_raster ''EPSG:4326'') \<noteq> ''EPSG:32649''
   \<and> isl (load_raster None (example_raster ''EPSG:4326''))"
  using crs_check_unreachable [of None "example_raster ''EPSG:32649''"]
    crs_check_unreachable [of None "example_raster ''EPSG:4326''"]
  by (simp add: load_raster_def example_raster_def src_meta_def)

text \<open>
  C8. A raster in \<open>EPSG:4326\<close> is not rejected with the CRS-mismatch error: when the
  warp calls return, both scripts fail on the unassigned \<^verbatim>\<open>meta\<close>; when a warp call
  raises, they fail with that exception.
\<close>

theorem mismatched_raster_unbound_meta:
  "calculate_metrics_pded None (example_raster ''EPSG:4326'') zones =
     Inl (UnboundLocalError ''meta'')
   \<and> calculate_metrics_shdi None (example_raster ''EPSG:4326'') zones =
     Inl (UnboundLocalError ''meta'')
   \<and> calculate_metrics_pded (Some exn) (example_raster ''EPSG:4326'') zones =
     Inl (External exn)
   \<and> calculate_metrics_shdi (Some exn) (example_raster ''EPSG:4326'') zones =
     Inl (External exn)"
  by (simp add: calculate_metrics_pded_def calculate_metrics_shdi_def load_raster_def
      example_raster_def)

subsection \<open>Invalid windows\<close>

text \<open>
  C3. When the fractional pixel bounds of a zone leave the raster, or the clipped
  sub-grid is empty or all nodata, both scripts store NaN for every metric of the zone,
  raise nothing, and go on with the remaining zones.
\<close>

theorem invalid_window_nan:
  assumes "inv_apply (meta_transform meta) (minx, maxy) = Inr (col_start, row_start)"
    and "inv_apply (meta_transform meta) (maxx, miny) = Inr (col_end, row_end)"
    and "invalid_window data col_start row_start col_end row_end"
  shows "zone_shdi data meta (minx, miny, maxx, maxy) =
           Inr \<lparr>SHDI = NaN, LPI = NaN, CONTAG = NaN\<rparr>
       \<and> zone_pded data meta (minx, miny, maxx, maxy) =
           Inr (map (\<lambda>class_val. (class_val, NaN, NaN)) [1..<7])
       \<and> for_each (zone_shdi data meta) ((minx, miny, maxx, maxy) # zones) =
           (case for_each (zone_shdi data meta) zones of
              Inl e \<Rightarrow> Inl e
            | Inr rows \<Rightarrow> Inr (\<lparr>SHDI = NaN, LPI = NaN, CONTAG = NaN\<rparr> # rows))
       \<and> for_each (zone_pded data meta) ((minx, miny, maxx, maxy) # zones) =
           (case for_each (zone_pded data meta) zones of
              Inl e \<Rightarrow> Inl e
            | Inr rows \<Rightarrow> Inr (map (\<lambda>class_val. (class_val, NaN, NaN)) [1..<7] # rows))"
proof -
  have s: "zone_shdi data meta (minx, miny, maxx, maxy) = Inr nan_shdi_row"
    using assms
    by (auto simp: zone_shdi_def invalid_window_def valid_window_code Let_def)
  have p: "zone_pded data meta (minx, miny, maxx, maxy) = Inr nan_pded_row"
    using assms
    by (auto simp: zone_pded_def invalid_window_def valid_window_code Let_def)
  show ?thesis
    unfolding for_each.simps s p nan_shdi_row_def nan_pded_row_def sum.case
    by (intro conjI refl)
qed


lemma example_inv_apply:
  "inv_apply (meta_transform (src_meta (example_raster crs))) (x, y) = Inr (x, 2 - y)"
  by (simp add: src_meta_def example_raster_def north_up_def)

lemma example_shape:
  "shape0 (src_band1 (example_raster crs)) = 2" "shape1 (src_band1 (example_raster crs)) = 2"
  by (simp_all add: example_raster_def of_rows_def)

theorem invalid_window_nan_witness:
  "inv_apply (meta_transform (src_meta (example_raster ''EPSG:32649''))) (1, 1) = Inr (1, 1)
   \<and> inv_apply (meta_transform (src_meta (example_raster ''EPSG:32649''))) (3, 0) = Inr (3, 2)
   \<and> invalid_window (src_band1 (example_raster ''EPSG:32649'')) 1 1 3 2
   \<and> zone_shdi (src_band1 (example_raster ''EPSG:32649''))
        (src_meta (example_raster ''EPSG:32649'')) (1, 0, 3, 1) =
        Inr \<lparr>SHDI = NaN, LPI = NaN, CONTAG = NaN\<rparr>
   \<and> zone_pded (src_band1 (example_raster ''EPSG:32649''))
        (src_meta (example_raster ''EPSG:32649'')) (1, 0, 3, 1) =
        Inr (map (\<lambda>class_val. (class_val, NaN, NaN)) [1..<7])"
proof -
  let ?r = "example_raster ''EPSG:32649''"
  have h1: "inv_apply (meta_transform (src_meta ?r)) (1, 1) = Inr (1, 1)"
    by (simp add: example_inv_apply)
  have h2: "inv_apply (meta_transform (src_meta ?r)) (3, 0) = Inr (3, 2)"
    by (simp add: example_inv_apply)
  have h3: "invalid_window (src_band1 ?r) 1 1 3 2"
    by (simp add: invalid_window_def example_shape)
  from invalid_window_nan [OF h1 h2 h3] h1 h2 h3 show ?thesis by blast
qed


subsection \<open>Patch density\<close>

lemma np_sum_Fin_aux:
  "fold (\<lambda>x acc. np_add acc x) (map (\<lambda>c. Fin (f c)) cs) (Fin a) = Fin (a + sum_list (map f cs))"
  by (induction cs arbitrary: a) (simp_all add: add.assoc)

lemma np_sum_Fin: "np_sum (map (\<lambda>c. Fin (f c)) cs) = Fin (sum_list (map f cs))"
  using np_sum_Fin_aux [of f cs 0] by (simp add: np_sum_def)

lemma patch_density_fraction:
  assumes "0 < size_of A" and "cell_area \<noteq> 0"
  shows "patch_density A c cell_area (real (size_of A) * cell_area) = Fin (area_fraction A c)"
proof -
  have "count_true (map (\<lambda>v. v = c) (flatten A)) = pixel_count A c"
    by (simp add: count_true_filter length_filter_flatten pixel_count_def)
  then show ?thesis
    using assms by (simp add: patch_density_def area_fraction_def)
qed

lemma sum_pixel_counts:
  assumes "classes_present A \<subseteq> {1..6}"
  shows "(\<Sum>c\<leftarrow>[1..<7]. pixel_count A c) = size_of A"
proof -
  have "set [1..<7] = {1..(6::nat)}" by auto
  moreover have "(\<Sum>c\<in>{1..6}. count_list (flatten A) c) = length (flatten A)"
    using assms by (intro sum_count_set) (simp_all add: set_flatten)
  ultimately show ?thesis
    by (simp add: sum_list_distinct_conv_sum_set count_list_flatten length_flatten)
qed

lemma sum_list_fractions:
  "(\<Sum>c\<leftarrow>cs. real (f c) / d) = real (\<Sum>c\<leftarrow>cs. f c) / d"
  by (induction cs) (simp_all add: add_divide_distrib)

text \<open>
  C6. For a valid window whose pixel values all lie in 1 to 6 (so none is nodata), and
  a cell area that is not zero, the six PD values are finite and add up to exactly 1.
\<close>

theorem patch_density_sum_one:
  assumes "valid_window A" and "classes_present A \<subseteq> {1..6}" and "cell_area \<noteq> 0"
  shows "np_sum (map (\<lambda>class_val.
            patch_density A class_val cell_area (real (size_of A) * cell_area)) [1..<7]) = Fin 1"
proof -
  have sz: "0 < size_of A" using assms(1) by (rule valid_window_size)
  have "(\<Sum>c\<leftarrow>[1..<7]. area_fraction A c) = real (\<Sum>c\<leftarrow>[1..<7]. pixel_count A c) / real (size_of A)"
    unfolding area_fraction_def by (rule sum_list_fractions)
  also have "\<dots> = 1"
    unfolding sum_pixel_counts [OF assms(2)] using sz by simp
  finally show ?thesis
    by (simp add: patch_density_fraction [OF sz assms(3)] np_sum_Fin)
qed


lemma flatten_2345: "flatten (of_rows [[2, 3], [4, 5]]) = [2, 3, 4, 5]"
  by (simp add: flatten_def of_rows_def)

lemma size_2345: "size_of (of_rows [[2, 3], [4, 5]]) = 4"
  by (simp add: size_of_def of_rows_def)

lemma valid_2345: "valid_window (of_rows [[2, 3], [4, 5]])"
  by (simp add: valid_window_code flatten_2345 count_true_def size_2345)

lemma classes_2345: "classes_present (of_rows [[2, 3], [4, 5]]) = {2, 3, 4, 5}"
  using set_flatten [of "of_rows [[2, 3], [4, 5]]"] by (simp add: flatten_2345)

theorem patch_density_sum_one_witness:
  "valid_window (of_rows [[2, 3], [4, 5]])
   \<and> classes_present (of_rows [[2, 3], [4, 5]]) \<subseteq> {1..6}
   \<and> np_sum (map (\<lambda>class_val. patch_density (of_rows [[2, 3], [4, 5]]) class_val 900
           (real (size_of (of_rows [[2, 3], [4, 5]])) * 900)) [1..<7]) = Fin 1"
proof -
  have c: "classes_present (of_rows [[2, 3], [4, 5]]) \<subseteq> {1..6}"
    by (simp add: classes_2345)
  have n: "(900::real) \<noteq> 0" by simp
  from patch_density_sum_one [OF valid_2345 c n] valid_2345 c show ?thesis by blast
qed


subsection \<open>The scan of the 4-connected neighbours\<close>

lemma set_nbrs:
  assumes "i < shape0 A" and "j < shape1 A"
  shows "set (nbrs A i j) = window_neighbors A (i, j)"
  using assms
  by (auto simp: nbrs_def window_neighbors_def pixels_def adjacent_def)

lemma distinct_nbrs: "distinct (nbrs A i j)"
  by (auto simp: nbrs_def)

lemma fold_neighbors:
  assumes i: "i < shape0 A" and j: "j < shape1 A"
    and inb: "\<And>ni nj s. inside A ni nj \<Longrightarrow> h (ni, nj) s = g (nat ni, nat nj) s"
    and out: "\<And>ni nj s. \<not> inside A ni nj \<Longrightarrow> h (ni, nj) s = s"
  shows "fold h (neighbors i j) s = fold g (nbrs A i j) s"
proof -
  have up: "h (int i - 1, int j) s = (if 0 < i then g (i - 1, j) s else s)" for s
  proof (cases "0 < i")
    case True
    then have "inside A (int i - 1) (int j)" using i j by (simp add: inside_def)
    from inb [OF this] True show ?thesis by (simp add: nat_diff_distrib')
  next
    case False
    then have "\<not> inside A (int i - 1) (int j)" by (simp add: inside_def)
    from out [OF this] False show ?thesis by simp
  qed
  have down: "h (int i + 1, int j) s = (if i + 1 < shape0 A then g (i + 1, j) s else s)" for s
  proof (cases "i + 1 < shape0 A")
    case True
    then have "inside A (int i + 1) (int j)" using j by (simp add: inside_def)
    from inb [OF this] True show ?thesis by (simp add: nat_add_distrib)
  next
    case False
    then have "\<not> inside A (int i + 1) (int j)" by (simp add: inside_def)
    from out [OF this] False show ?thesis by simp
  qed
  have left: "h (int i, int j - 1) s = (if 0 < j then g (i, j - 1) s else s)" for s
  proof (cases "0 < j")
    case True
    then have "inside A (int i) (int j - 1)" using i j by (simp add: inside_def)
    from inb [OF this] True show ?thesis by (simp add: nat_diff_distrib')
  next
    case False
    then have "\<not> inside A (int i) (int j - 1)" by (simp add: inside_def)
    from out [OF this] False show ?thesis by simp
  qed
  have right: "h (int i, int j + 1) s = (if j + 1 < shape1 A then g (i, j + 1) s else s)" for s
  proof (cases "j + 1 < shape1 A")
    case True
    then have "inside A (int i) (int j + 1)" using i by (simp add: inside_def)
    from inb [OF this] True show ?thesis by (simp add: nat_add_distrib)
  next
    case False
    then have "\<not> inside A (int i) (int j + 1)" by (simp add: inside_def)
    from out [OF this] False show ?thesis by simp
  qed
  show ?thesis
    by (simp add: neighbors_def nbrs_def up down left right)
qed

lemma fold_additive:
  fixes mu :: "'s \<Rightarrow> 'm::comm_monoid_add"
  assumes "\<And>x s. x \<in> set xs \<Longrightarrow> mu (f x s) = mu s + w x"
  shows "mu (fold f xs s) = mu s + sum_list (map w xs)"
  using assms by (induction xs arbitrary: s) (simp_all add: add.assoc)

lemma sum_list_upt: "sum_list (map f [0..<n]) = (\<Sum>i<n. f i)"
  by (simp add: interv_sum_list_conv_sum_set_nat atLeast0LessThan)


subsection \<open>Edge density\<close>

lemma finite_window_neighbors: "finite (window_neighbors A p)"
  by (simp add: window_neighbors_def pixels_def)

lemma edge_pixel_sum:
  assumes i: "i < shape0 A" and j: "j < shape1 A"
  shows "edge_pixel A c rx ry i j e =
         e + (if pixel_value A (i, j) = c
              then (\<Sum>q \<in> {q \<in> window_neighbors A (i, j). pixel_value A q \<noteq> c}.
                      if fst q = i then rx else ry)
              else 0)"
proof (cases "cell A i j = c")
  case False
  then show ?thesis by (simp add: edge_pixel_def pixel_value_def)
next
  case True
  let ?g = "\<lambda>q e. e + edge_weight A c rx ry (i, j) q"
  have "fold (edge_neighbor A c rx ry i) (neighbors i j) e = fold ?g (nbrs A i j) e"
  proof (rule fold_neighbors [OF i j])
    fix ni nj s assume "inside A ni nj"
    then have "ni = int i \<longleftrightarrow> nat ni = i" by (auto simp: inside_def)
    with \<open>inside A ni nj\<close> show "edge_neighbor A c rx ry i (ni, nj) s = ?g (nat ni, nat nj) s"
      by (simp add: edge_neighbor_def edge_weight_def pixel_value_def)
  next
    fix ni nj s assume "\<not> inside A ni nj"
    then show "edge_neighbor A c rx ry i (ni, nj) s = s"
      by (simp add: edge_neighbor_def)
  qed
  also have "\<dots> = e + sum_list (map (edge_weight A c rx ry (i, j)) (nbrs A i j))"
    by (rule fold_additive [where mu = "\<lambda>e. e"]) simp
  also have "sum_list (map (edge_weight A c rx ry (i, j)) (nbrs A i j)) =
      sum (edge_weight A c rx ry (i, j)) (window_neighbors A (i, j))"
    by (simp add: sum_list_distinct_conv_sum_set distinct_nbrs set_nbrs [OF i j])
  also have "\<dots> = (\<Sum>q \<in> {q \<in> window_neighbors A (i, j). pixel_value A q \<noteq> c}.
                      if fst q = i then rx else ry)"
    unfolding edge_weight_def fst_conv
    by (rule sum.inter_filter [symmetric]) (rule finite_window_neighbors)
  finally show ?thesis using True by (simp add: edge_pixel_def pixel_value_def)
qed

lemma calculate_edge_length_spec:
  "calculate_edge_length A c rx ry = edge_length_spec A c rx ry"
proof -
  let ?inner = "\<lambda>p. \<Sum>q \<in> {q \<in> window_neighbors A p. pixel_value A q \<noteq> c}.
                      if fst q = fst p then rx else ry"
  let ?contrib = "\<lambda>p. if pixel_value A p = c then ?inner p else 0"
  have row: "fold (edge_pixel A c rx ry i) [0..<shape1 A] e =
             e + (\<Sum>j<shape1 A. ?contrib (i, j))" if "i < shape0 A" for i e
  proof -
    have "fold (edge_pixel A c rx ry i) [0..<shape1 A] e =
          e + sum_list (map (\<lambda>j. ?contrib (i, j)) [0..<shape1 A])"
      by (rule fold_additive [where mu = "\<lambda>e. e"]) (simp add: edge_pixel_sum [OF that])
    then show ?thesis by (simp only: sum_list_upt)
  qed
  have "calculate_edge_length A c rx ry =
        0 + sum_list (map (\<lambda>i. \<Sum>j<shape1 A. ?contrib (i, j)) [0..<shape0 A])"
    unfolding calculate_edge_length_def
    by (rule fold_additive [where mu = "\<lambda>e. e"]) (simp add: row)
  also have "\<dots> = (\<Sum>i<shape0 A. \<Sum>j<shape1 A. ?contrib (i, j))"
    by (simp only: sum_list_upt add_0)
  also have "\<dots> = (\<Sum>p\<in>pixels A. ?contrib p)"
    by (simp add: sum.cartesian_product pixels_def)
  also have "\<dots> = edge_length_spec A c rx ry"
    unfolding edge_length_spec_def
    by (subst sum.inter_filter) (simp_all add: pixels_def)
  finally show ?thesis .
qed


lemma for_each_class_pded:
  assumes "ta \<noteq> 0"
  shows "for_each (class_pded A rx ry ca ta) cs =
         Inr (map (\<lambda>c. (c, patch_density A c ca ta,
                          Fin (calculate_edge_length A c rx ry / ta))) cs)"
  using assms by (induction cs) (simp_all add: class_pded_def Let_def)

lemma zone_pded_valid:
  assumes h1: "inv_apply (meta_transform meta) (minx, maxy) = Inr (col_start, row_start)"
    and h2: "inv_apply (meta_transform meta) (maxx, miny) = Inr (col_end, row_end)"
    and v: "\<not> invalid_window data col_start row_start col_end row_end"
    and a: "coeff_a (meta_transform meta) \<noteq> 0"
    and e: "coeff_e (meta_transform meta) \<noteq> 0"
  shows "zone_pded data meta (minx, miny, maxx, maxy) =
         Inr (map (\<lambda>c. (c,
           patch_density (slice2 data (py_int row_start) (py_int row_end)
                            (py_int col_start) (py_int col_end)) c
             (\<bar>coeff_a (meta_transform meta)\<bar> * \<bar>coeff_e (meta_transform meta)\<bar>)
             (real (size_of (slice2 data (py_int row_start) (py_int row_end)
                            (py_int col_start) (py_int col_end))) *
              (\<bar>coeff_a (meta_transform meta)\<bar> * \<bar>coeff_e (meta_transform meta)\<bar>)),
           Fin (calculate_edge_length (slice2 data (py_int row_start) (py_int row_end)
                            (py_int col_start) (py_int col_end)) c
                  \<bar>coeff_a (meta_transform meta)\<bar> \<bar>coeff_e (meta_transform meta)\<bar> /
                (real (size_of (slice2 data (py_int row_start) (py_int row_end)
                            (py_int col_start) (py_int col_end))) *
                 (\<bar>coeff_a (meta_transform meta)\<bar> * \<bar>coeff_e (meta_transform meta)\<bar>)))))
           [1..<7])"
proof -
  let ?W = "slice2 data (py_int row_start) (py_int row_end) (py_int col_start) (py_int col_end)"
  let ?ca = "\<bar>coeff_a (meta_transform meta)\<bar> * \<bar>coeff_e (meta_transform meta)\<bar>"
  have vw: "valid_window ?W" and inb: "\<not> (col_start < 0 \<or> row_start < 0 \<or>
      col_end > real (shape1 data) \<or> row_end > real (shape0 data))"
    using v by (auto simp: invalid_window_def)
  have sz: "0 < size_of ?W" using vw by (rule valid_window_size)
  have ta: "real (size_of ?W) * ?ca \<noteq> 0" using sz a e by simp
  have ok: "\<not> (size_of ?W = 0 \<or> count_true (map (\<lambda>v. v \<noteq> 255) (flatten ?W)) = 0)"
    using vw valid_window_code [of ?W] by blast
  show ?thesis
    unfolding zone_pded_def prod.case Let_def h1 h2 sum.case if_not_P [OF inb] if_not_P [OF ok]
    by (rule for_each_class_pded [OF ta])
qed

text \<open>
  C5. For a valid window \<open>W\<close> and pixels of non-zero width and height, the zone loop
  stores for every class \<open>c\<close> of 1 to 6 the value \<open>edgeLength[c] / totalArea\<close>, where
  \<open>edgeLength[c]\<close> adds, over every pixel of class \<open>c\<close> and every in-bounds 4-connected
  neighbour of another class, the pixel width for a neighbour in the same row and the
  pixel height for a neighbour in the same column, and \<open>totalArea\<close> is the pixel count
  of the window times the cell area.
\<close>

theorem edge_density_formula:
  assumes "inv_apply (meta_transform meta) (minx, maxy) = Inr (col_start, row_start)"
    and "inv_apply (meta_transform meta) (maxx, miny) = Inr (col_end, row_end)"
    and "\<not> invalid_window data col_start row_start col_end row_end"
    and "coeff_a (meta_transform meta) \<noteq> 0"
    and "coeff_e (meta_transform meta) \<noteq> 0"
    and "W = slice2 data (py_int row_start) (py_int row_end) (py_int col_start) (py_int col_end)"
    and "pixel_width = \<bar>coeff_a (meta_transform meta)\<bar>"
    and "pixel_height = \<bar>coeff_e (meta_transform meta)\<bar>"
  shows "\<exists>row. zone_pded data meta (minx, miny, maxx, maxy) = Inr row \<and>
           map (\<lambda>(class_val, pd_value, ed_value). (class_val, ed_value)) row =
           map (\<lambda>c. (c, Fin (edge_length_spec W c pixel_width pixel_height /
                             (real (size_of W) * (pixel_width * pixel_height))))) [1..<7]"
  unfolding zone_pded_valid [OF assms(1-5)] assms(6-8)
  by (simp add: calculate_edge_length_spec comp_def)


lemma example_full_window:
  "flatten (slice2 (src_band1 (example_raster crs)) (py_int 0) (py_int 2) (py_int 0) (py_int 2))
     = [2, 3, 4, 5]"
  "size_of (slice2 (src_band1 (example_raster crs)) (py_int 0) (py_int 2) (py_int 0) (py_int 2))
     = 4"
  by (simp_all add: flatten_def size_of_def slice2_def norm_index_def py_int_def
      example_raster_def of_rows_def)

lemma example_full_valid:
  "\<not> invalid_window (src_band1 (example_raster crs)) 0 0 2 2"
  by (simp add: invalid_window_def example_shape valid_window_code example_full_window
      count_true_def)

lemma example_coeffs:
  "coeff_a (meta_transform (src_meta (example_raster crs))) = 1"
  "coeff_e (meta_transform (src_meta (example_raster crs))) = - 1"
  by (simp_all add: src_meta_def example_raster_def north_up_def)

theorem edge_density_formula_witness:
  "inv_apply (meta_transform (src_meta (example_raster ''EPSG:32649''))) (0, 2) = Inr (0, 0)
   \<and> inv_apply (meta_transform (src_meta (example_raster ''EPSG:32649''))) (2, 0) = Inr (2, 2)
   \<and> \<not> invalid_window (src_band1 (example_raster ''EPSG:32649'')) 0 0 2 2
   \<and> coeff_a (meta_transform (src_meta (example_raster ''EPSG:32649''))) \<noteq> 0
   \<and> coeff_e (meta_transform (src_meta (example_raster ''EPSG:32649''))) \<noteq> 0
   \<and> (\<exists>row. zone_pded (src_band1 (example_raster ''EPSG:32649''))
               (src_meta (example_raster ''EPSG:32649'')) (0, 0, 2, 2) = Inr row \<and>
           map (\<lambda>(class_val, pd_value, ed_value). (class_val, ed_value)) row =
           map (\<lambda>c. (c, Fin (edge_length_spec
                   (slice2 (src_band1 (example_raster ''EPSG:32649''))
                      (py_int 0) (py_int 2) (py_int 0) (py_int 2)) c 1 1 /
                 (real (size_of (slice2 (src_band1 (example_raster ''EPSG:32649''))
                      (py_int 0) (py_int 2) (py_int 0) (py_int 2))) * (1 * 1))))) [1..<7])"
proof -
  let ?r = "example_raster ''EPSG:32649''"
  have h1: "inv_apply (meta_transform (src_meta ?r)) (0, 2) = Inr (0, 0)"
    by (simp add: example_inv_apply)
  have h2: "inv_apply (meta_transform (src_meta ?r)) (2, 0) = Inr (2, 2)"
    by (simp add: example_inv_apply)
  have a: "coeff_a (meta_transform (src_meta ?r)) \<noteq> 0"
    and e: "coeff_e (meta_transform (src_meta ?r)) \<noteq> 0"
    by (simp_all add: example_coeffs)
  have w: "(1::real) = \<bar>coeff_a (meta_transform (src_meta ?r))\<bar>"
    and h: "(1::real) = \<bar>coeff_e (meta_transform (src_meta ?r))\<bar>"
    by (simp_all add: example_coeffs)
  from edge_density_formula [OF h1 h2 example_full_valid a e refl w h]
    h1 h2 example_full_valid a e
  show ?thesis by blast
qed


subsection \<open>The adjacency matrix of CONTAG\<close>

lemma class_to_index_Some:
  assumes "class_to_index unique c = Some k"
  shows "k < length unique \<and> unique ! k = c"
proof -
  from assms have "(c, k) \<in> set (rev (map (\<lambda>(idx, cls). (cls, idx)) (enumerate 0 unique)))"
    unfolding class_to_index_def by (rule map_of_SomeD)
  then have "(k, c) \<in> set (enumerate 0 unique)" by auto
  then show ?thesis by (simp add: in_set_enumerate_eq)
qed

lemma class_to_index_dom:
  assumes "c \<in> set unique"
  shows "\<exists>k. class_to_index unique c = Some k"
proof -
  from assms obtain k where "k < length unique" "unique ! k = c"
    by (auto simp: in_set_conv_nth)
  then have "(k, c) \<in> set (enumerate 0 unique)" by (simp add: in_set_enumerate_eq)
  then have "c \<in> fst ` set (rev (map (\<lambda>(idx, cls). (cls, idx)) (enumerate 0 unique)))"
    by force
  then have "c \<in> dom (class_to_index unique)"
    unfolding class_to_index_def by (simp only: dom_map_of_conv_image_fst)
  then show ?thesis by auto
qed

lemma cell_increment:
  "cell (increment M a b) x y = cell M x y + (if x = a \<and> y = b then 1 else 0)"
  by (simp add: increment_def)

lemma shape_increment [simp]:
  "shape0 (increment M a b) = shape0 M" "shape1 (increment M a b) = shape1 M"
  by (simp_all add: increment_def)

lemma cell_visit_step:
  "cell (visit_step A c2i ci q M) x y =
     cell M x y + (if x = ci \<and> c2i (pixel_value A q) = Some y then 1 else 0)"
  by (auto simp: visit_step_def cell_increment split: option.splits)

lemma shape_visit_step [simp]:
  "shape0 (visit_step A c2i ci q M) = shape0 M" "shape1 (visit_step A c2i ci q M) = shape1 M"
  by (simp_all add: visit_step_def split: option.splits)

lemma visit_pixel_nbrs:
  assumes "i < shape0 A" and "j < shape1 A"
  shows "visit_pixel A c2i i j M =
         (case c2i (pixel_value A (i, j)) of
            None \<Rightarrow> M
          | Some ci \<Rightarrow> fold (visit_step A c2i ci) (nbrs A i j) M)"
proof -
  have "fold (visit_neighbor A c2i ci) (neighbors i j) M = fold (visit_step A c2i ci) (nbrs A i j) M"
    for ci
    by (rule fold_neighbors [OF assms])
      (simp_all add: visit_neighbor_def visit_step_def pixel_value_def)
  then show ?thesis
    by (simp add: visit_pixel_def pixel_value_def split: option.splits)
qed


lemma sum_list_indicator:
  assumes "distinct xs"
  shows "sum_list (map (\<lambda>q. if P q then 1 else 0) xs) = card {q \<in> set xs. P q}"
proof -
  have "sum_list (map (\<lambda>q. if P q then 1 else 0) xs) = length (filter P xs)"
    by (induction xs) simp_all
  also have "\<dots> = card ({q. P q} \<inter> set xs)"
    using assms by (rule distinct_length_filter)
  also have "{q. P q} \<inter> set xs = {q \<in> set xs. P q}" by auto
  finally show ?thesis .
qed

lemma cell_visit_pixel:
  assumes i: "i < shape0 A" and j: "j < shape1 A"
  shows "cell (visit_pixel A c2i i j M) x y =
         cell M x y + card {q \<in> window_neighbors A (i, j).
                             c2i (pixel_value A (i, j)) = Some x
                             \<and> c2i (pixel_value A q) = Some y}"
proof (cases "c2i (pixel_value A (i, j))")
  case None
  then show ?thesis by (simp add: visit_pixel_nbrs [OF i j])
next
  case (Some ci)
  let ?w = "\<lambda>q. if x = ci \<and> c2i (pixel_value A q) = Some y then 1 else (0::nat)"
  have "cell (fold (visit_step A c2i ci) (nbrs A i j) M) x y =
        cell M x y + sum_list (map ?w (nbrs A i j))"
    by (rule fold_additive [where mu = "\<lambda>M. cell M x y"]) (simp add: cell_visit_step)
  also have "sum_list (map ?w (nbrs A i j)) =
      card {q \<in> window_neighbors A (i, j). x = ci \<and> c2i (pixel_value A q) = Some y}"
    by (simp only: sum_list_indicator [OF distinct_nbrs] set_nbrs [OF i j])
  finally show ?thesis
    using Some by (simp add: visit_pixel_nbrs [OF i j] eq_commute [of x ci])
qed

lemma shape_visit_pixel:
  assumes "i < shape0 A" and "j < shape1 A"
  shows "shape0 (visit_pixel A c2i i j M) = shape0 M \<and> shape1 (visit_pixel A c2i i j M) = shape1 M"
proof (cases "c2i (pixel_value A (i, j))")
  case None
  then show ?thesis by (simp add: visit_pixel_nbrs [OF assms])
next
  case (Some ci)
  have "shape0 (fold (visit_step A c2i ci) (nbrs A i j) M) = shape0 M + sum_list (map (\<lambda>q. 0) (nbrs A i j))"
    by (rule fold_additive [where mu = shape0]) simp
  moreover have "shape1 (fold (visit_step A c2i ci) (nbrs A i j) M) = shape1 M + sum_list (map (\<lambda>q. 0) (nbrs A i j))"
    by (rule fold_additive [where mu = shape1]) simp
  ultimately show ?thesis using Some by (simp add: visit_pixel_nbrs [OF assms])
qed

lemma shape_scan: "shape0 (scan A c2i M) = shape0 M \<and> shape1 (scan A c2i M) = shape1 M"
proof -
  have row0: "shape0 (fold (\<lambda>j. visit_pixel A c2i i j) [0..<shape1 A] M) =
              shape0 M + sum_list (map (\<lambda>j. 0) [0..<shape1 A])" if "i < shape0 A" for i M
    by (rule fold_additive [where mu = shape0]) (simp add: shape_visit_pixel [OF that])
  have row1: "shape1 (fold (\<lambda>j. visit_pixel A c2i i j) [0..<shape1 A] M) =
              shape1 M + sum_list (map (\<lambda>j. 0) [0..<shape1 A])" if "i < shape0 A" for i M
    by (rule fold_additive [where mu = shape1]) (simp add: shape_visit_pixel [OF that])
  have "shape0 (scan A c2i M) = shape0 M + sum_list (map (\<lambda>i. 0) [0..<shape0 A])"
    unfolding scan_def by (rule fold_additive [where mu = shape0]) (simp add: row0)
  moreover have "shape1 (scan A c2i M) = shape1 M + sum_list (map (\<lambda>i. 0) [0..<shape0 A])"
    unfolding scan_def by (rule fold_additive [where mu = shape1]) (simp add: row1)
  ultimately show ?thesis by simp
qed

lemma cell_scan:
  "cell (scan A c2i M) x y = cell M x y + card (index_pairs A c2i x y)"
proof -
  let ?B = "\<lambda>p. {q \<in> window_neighbors A p.
                 c2i (pixel_value A p) = Some x \<and> c2i (pixel_value A q) = Some y}"
  have row: "cell (fold (\<lambda>j. visit_pixel A c2i i j) [0..<shape1 A] M) x y =
             cell M x y + (\<Sum>j<shape1 A. card (?B (i, j)))" if "i < shape0 A" for i M
  proof -
    have "cell (fold (\<lambda>j. visit_pixel A c2i i j) [0..<shape1 A] M) x y =
          cell M x y + sum_list (map (\<lambda>j. card (?B (i, j))) [0..<shape1 A])"
      by (rule fold_additive [where mu = "\<lambda>M. cell M x y"])
        (simp add: cell_visit_pixel [OF that])
    then show ?thesis by (simp only: sum_list_upt)
  qed
  have "cell (scan A c2i M) x y =
        cell M x y + sum_list (map (\<lambda>i. \<Sum>j<shape1 A. card (?B (i, j))) [0..<shape0 A])"
    unfolding scan_def
    by (rule fold_additive [where mu = "\<lambda>M. cell M x y"]) (simp add: row)
  also have "sum_list (map (\<lambda>i. \<Sum>j<shape1 A. card (?B (i, j))) [0..<shape0 A]) =
             (\<Sum>i<shape0 A. \<Sum>j<shape1 A. card (?B (i, j)))"
    by (simp only: sum_list_upt)
  also have "\<dots> = (\<Sum>p\<in>pixels A. card (?B p))"
    by (simp add: sum.cartesian_product pixels_def)
  also have "\<dots> = card (SIGMA p:pixels A. ?B p)"
    by (subst card_SigmaI) (simp_all add: pixels_def window_neighbors_def)
  also have "(SIGMA p:pixels A. ?B p) = index_pairs A c2i x y"
    by (auto simp: index_pairs_def adjacent_pairs_def window_neighbors_def)
  finally show ?thesis .
qed

lemma adjacency_matrix_scan:
  "adjacency_matrix A =
     scan A (class_to_index (fst (unique_counts A)))
       (zeros (length (fst (unique_counts A))) (length (fst (unique_counts A))))"
  by (simp add: adjacency_matrix_def scan_def split_beta Let_def)

lemma cell_adjacency_matrix:
  "cell (adjacency_matrix A) x y =
     card (index_pairs A (class_to_index (fst (unique_counts A))) x y)"
  by (simp add: adjacency_matrix_scan cell_scan zeros_def)

lemma adjacent_sym: "adjacent p q \<longleftrightarrow> adjacent q p"
  by (auto simp: adjacent_def)

lemma index_pairs_swap_iff:
  "pq \<in> index_pairs A c2i y x \<longleftrightarrow> prod.swap pq \<in> index_pairs A c2i x y"
  using adjacent_sym [of "fst pq" "snd pq"]
  by (cases pq) (auto simp: index_pairs_def adjacent_pairs_def)

lemma index_pairs_swap: "index_pairs A c2i y x = prod.swap ` index_pairs A c2i x y"
proof (intro set_eqI iffI)
  fix pq assume "pq \<in> index_pairs A c2i y x"
  then have "prod.swap pq \<in> index_pairs A c2i x y"
    by (rule iffD1 [OF index_pairs_swap_iff])
  then have "prod.swap (prod.swap pq) \<in> prod.swap ` index_pairs A c2i x y"
    by (rule imageI)
  then show "pq \<in> prod.swap ` index_pairs A c2i x y" by simp
next
  fix pq assume "pq \<in> prod.swap ` index_pairs A c2i x y"
  then obtain r where r: "r \<in> index_pairs A c2i x y" and pq: "pq = prod.swap r" by blast
  from pq have "prod.swap pq = r" by simp
  with r have "prod.swap pq \<in> index_pairs A c2i x y" by simp
  then show "pq \<in> index_pairs A c2i y x"
    by (rule iffD2 [OF index_pairs_swap_iff])
qed

text \<open>
  C10. The adjacency matrix built for CONTAG is symmetric: the entry \<open>[i][k]\<close> counts
  the ordered adjacent pixel pairs whose classes have the indices \<open>i\<close> and \<open>k\<close>, and
  swapping the two pixels of a pair maps these onto the pairs counted by \<open>[k][i]\<close>.
\<close>

theorem adjacency_matrix_symmetric:
  "cell (adjacency_matrix A) i k = cell (adjacency_matrix A) k i"
proof -
  let ?f = "class_to_index (fst (unique_counts A))"
  have "card (index_pairs A ?f k i) = card (prod.swap ` index_pairs A ?f i k)"
    by (rule arg_cong [OF index_pairs_swap])
  also have "\<dots> = card (index_pairs A ?f i k)"
    by (rule card_image) simp
  finally have "card (index_pairs A ?f i k) = card (index_pairs A ?f k i)"
    by (rule sym)
  then show ?thesis
    unfolding cell_adjacency_matrix .
qed


lemma sum_list_concat_map:
  "sum_list (concat (map f xs)) = sum_list (map (\<lambda>x. sum_list (f x)) xs)"
  by (induction xs) simp_all

lemma sum_list_flatten:
  "sum_list (flatten M) = (\<Sum>i<shape0 M. \<Sum>j<shape1 M. cell M i j)"
  unfolding flatten_def sum_list_concat_map sum_list_upt ..

lemma shape_adjacency_matrix:
  "shape0 (adjacency_matrix A) = length (fst (unique_counts A))"
  "shape1 (adjacency_matrix A) = length (fst (unique_counts A))"
  by (simp_all add: adjacency_matrix_scan shape_scan zeros_def)

lemma pixel_has_index:
  assumes "p \<in> pixels A"
  shows "\<exists>k<length (fst (unique_counts A)).
           class_to_index (fst (unique_counts A)) (pixel_value A p) = Some k"
proof -
  have "pixel_value A p \<in> classes_present A"
    using assms by (force simp: classes_present_def pixel_value_def)
  then have "pixel_value A p \<in> set (fst (unique_counts A))"
    by (simp add: unique_counts_def Let_def set_flatten)
  then obtain k where k: "class_to_index (fst (unique_counts A)) (pixel_value A p) = Some k"
    using class_to_index_dom by blast
  with class_to_index_Some [OF k] show ?thesis by blast
qed

lemma finite_adjacent_pairs: "finite (adjacent_pairs A)"
proof -
  have "adjacent_pairs A \<subseteq> pixels A \<times> pixels A"
    by (auto simp: adjacent_pairs_def)
  moreover have "finite (pixels A \<times> pixels A)" by (simp add: pixels_def)
  ultimately show ?thesis by (rule finite_subset)
qed

lemma sum_index_pairs:
  "(\<Sum>x<length (fst (unique_counts A)). \<Sum>y<length (fst (unique_counts A)).
      card (index_pairs A (class_to_index (fst (unique_counts A))) x y)) =
   card (adjacent_pairs A)"
proof -
  let ?m = "length (fst (unique_counts A))"
  let ?f = "class_to_index (fst (unique_counts A))"
  let ?g = "\<lambda>pq. (the (?f (pixel_value A (fst pq))), the (?f (pixel_value A (snd pq))))"
  let ?T = "{..<?m} \<times> {..<?m}"
  have sub: "?g ` adjacent_pairs A \<subseteq> ?T"
  proof
    fix xy assume "xy \<in> ?g ` adjacent_pairs A"
    then obtain p q where pq: "(p, q) \<in> adjacent_pairs A" and xy: "xy = ?g (p, q)" by auto
    from pq have "p \<in> pixels A" "q \<in> pixels A" by (auto simp: adjacent_pairs_def)
    with pixel_has_index [of p A] pixel_has_index [of q A] xy show "xy \<in> ?T" by auto
  qed
  have part: "{pq \<in> adjacent_pairs A. ?g pq = (x, y)} = index_pairs A ?f x y"
    if "x < ?m" "y < ?m" for x y
  proof (intro set_eqI iffI)
    fix pq assume a: "pq \<in> {pq \<in> adjacent_pairs A. ?g pq = (x, y)}"
    obtain p q where pq: "pq = (p, q)" by (cases pq)
    from a pq have "p \<in> pixels A" "q \<in> pixels A" by (auto simp: adjacent_pairs_def)
    with pixel_has_index [of p A] pixel_has_index [of q A] a pq
    show "pq \<in> index_pairs A ?f x y" by (auto simp: index_pairs_def)
  next
    fix pq assume "pq \<in> index_pairs A ?f x y"
    then show "pq \<in> {pq \<in> adjacent_pairs A. ?g pq = (x, y)}"
      by (auto simp: index_pairs_def)
  qed
  have "(\<Sum>x<?m. \<Sum>y<?m. card (index_pairs A ?f x y)) =
        (\<Sum>xy\<in>?T. card {pq \<in> adjacent_pairs A. ?g pq = xy})"
    unfolding sum.cartesian_product
  proof (rule sum.cong [OF refl])
    fix xy assume "xy \<in> ?T"
    then obtain x y where xy: "xy = (x, y)" and x: "x < ?m" and y: "y < ?m" by auto
    show "(case xy of (x, y) \<Rightarrow> card (index_pairs A ?f x y)) =
          card {pq \<in> adjacent_pairs A. ?g pq = xy}"
      unfolding xy prod.case part [OF x y] ..
  qed
  also have "\<dots> = (\<Sum>xy\<in>?T. \<Sum>pq\<in>{pq \<in> adjacent_pairs A. ?g pq = xy}. 1)"
    by simp
  also have "\<dots> = (\<Sum>pq\<in>adjacent_pairs A. 1)"
    by (rule sum.group [OF finite_adjacent_pairs _ sub]) simp
  finally show ?thesis by simp
qed

lemma sum_adjacency_matrix:
  "sum_list (flatten (adjacency_matrix A)) = card (adjacent_pairs A)"
  by (simp only: sum_list_flatten shape_adjacency_matrix cell_adjacency_matrix sum_index_pairs)


lemma count_below: "(\<Sum>i<n. if 0 < i then 1 else 0) = n - (1::nat)"
  by (induction n) auto

lemma count_above: "(\<Sum>i<n. if Suc i < n then 1 else 0) = n - (1::nat)"
proof -
  have "(\<Sum>i<n. if Suc i < n then 1 else 0) = card {i \<in> {..<n}. Suc i < n}"
    by (simp add: sum.inter_filter [symmetric])
  also have "{i \<in> {..<n}. Suc i < n} = {..<n - 1}" by auto
  finally show ?thesis by simp
qed

lemma length_nbrs:
  "length (nbrs A i j) =
     ((if 0 < i then 1 else 0) + (if i + 1 < shape0 A then 1 else 0)) +
     ((if 0 < j then 1 else 0) + (if j + 1 < shape1 A then 1 else 0))"
  by (simp add: nbrs_def)

lemma card_window_neighbors:
  assumes "p \<in> pixels A"
  shows "card (window_neighbors A p) = length (nbrs A (fst p) (snd p))"
proof -
  from assms have i: "fst p < shape0 A" and j: "snd p < shape1 A"
    by (auto simp: pixels_def)
  have "card (set (nbrs A (fst p) (snd p))) = length (nbrs A (fst p) (snd p))"
    by (rule distinct_card) (rule distinct_nbrs)
  then show ?thesis by (simp add: set_nbrs [OF i j])
qed

lemma sum_rectangle:
  fixes a c :: "nat \<Rightarrow> nat"
  shows "(\<Sum>i<H. \<Sum>j<W. a i + c j) = W * (\<Sum>i<H. a i) + H * (\<Sum>j<W. c j)"
proof -
  have "(\<Sum>i<H. \<Sum>j<W. a i + c j) = (\<Sum>i<H. W * a i + (\<Sum>j<W. c j))"
    by (simp add: sum.distrib)
  also have "\<dots> = (\<Sum>i<H. W * a i) + H * (\<Sum>j<W. c j)"
    by (simp add: sum.distrib)
  also have "(\<Sum>i<H. W * a i) = W * (\<Sum>i<H. a i)"
    by (rule sum_distrib_left [symmetric])
  finally show ?thesis .
qed

lemma card_adjacent_pairs:
  "card (adjacent_pairs A) =
     2 * (shape0 A * (shape1 A - 1) + (shape0 A - 1) * shape1 A)"
proof -
  let ?H = "shape0 A" and ?W = "shape1 A"
  let ?a = "\<lambda>i. (if 0 < i then 1 else 0) + (if i + 1 < ?H then 1 else (0::nat))"
  let ?c = "\<lambda>j. (if 0 < j then 1 else 0) + (if j + 1 < ?W then 1 else (0::nat))"
  have "adjacent_pairs A = (SIGMA p:pixels A. window_neighbors A p)"
    by (auto simp: adjacent_pairs_def window_neighbors_def)
  then have "card (adjacent_pairs A) = (\<Sum>p\<in>pixels A. card (window_neighbors A p))"
    by (simp add: card_SigmaI pixels_def finite_window_neighbors)
  also have "\<dots> = (\<Sum>p\<in>pixels A. length (nbrs A (fst p) (snd p)))"
    by (rule sum.cong [OF refl]) (rule card_window_neighbors)
  also have "\<dots> = (\<Sum>i<?H. \<Sum>j<?W. ?a i + ?c j)"
    by (simp add: pixels_def sum.cartesian_product length_nbrs case_prod_unfold)
  also have "\<dots> = ?W * (\<Sum>i<?H. ?a i) + ?H * (\<Sum>j<?W. ?c j)"
    by (rule sum_rectangle)
  also have "(\<Sum>i<?H. ?a i) = 2 * (?H - 1)"
    by (simp add: sum.distrib count_below count_above)
  also have "(\<Sum>j<?W. ?c j) = 2 * (?W - 1)"
    by (simp add: sum.distrib count_below count_above)
  finally show ?thesis by (simp add: algebra_simps)
qed

text \<open>
  C7. The entries of the adjacency matrix add up to the number of ordered 4-connected
  pixel pairs of the window, same-class pairs included: for a window of \<open>H\<close> rows and
  \<open>W\<close> columns that is \<open>2 (H (W - 1) + (H - 1) W)\<close>, every unordered pair counted twice.
  The formula is stated over the naturals, where it also covers an empty window (sum 0),
  and over the integers for a non-empty window.
\<close>

theorem adjacency_total:
  "sum_list (flatten (adjacency_matrix A)) = card (adjacent_pairs A)
   \<and> sum_list (flatten (adjacency_matrix A)) =
       2 * (shape0 A * (shape1 A - 1) + (shape0 A - 1) * shape1 A)
   \<and> (0 < size_of A \<longrightarrow>
        int (sum_list (flatten (adjacency_matrix A))) =
          2 * (int (shape0 A) * (int (shape1 A) - 1) + (int (shape0 A) - 1) * int (shape1 A)))"
proof -
  have a: "sum_list (flatten (adjacency_matrix A)) =
           2 * (shape0 A * (shape1 A - 1) + (shape0 A - 1) * shape1 A)"
    by (simp only: sum_adjacency_matrix card_adjacent_pairs)
  have b: "int (sum_list (flatten (adjacency_matrix A))) =
          2 * (int (shape0 A) * (int (shape1 A) - 1) + (int (shape0 A) - 1) * int (shape1 A))"
    if "0 < size_of A"
  proof -
    from that have "1 \<le> shape0 A" "1 \<le> shape1 A" by (auto simp: size_of_def)
    then show ?thesis unfolding a by simp
  qed
  from a b sum_adjacency_matrix show ?thesis by blast
qed


theorem adjacency_total_witness:
  "0 < size_of (of_rows [[2, 3], [4, 5]])
   \<and> int (sum_list (flatten (adjacency_matrix (of_rows [[2, 3], [4, 5]])))) =
       2 * (int (shape0 (of_rows [[2, 3], [4, 5]])) * (int (shape1 (of_rows [[2, 3], [4, 5]])) - 1)
          + (int (shape0 (of_rows [[2, 3], [4, 5]])) - 1) * int (shape1 (of_rows [[2, 3], [4, 5]])))
   \<and> sum_list (flatten (adjacency_matrix (of_rows [[2, 3], [4, 5]]))) = 8"
proof -
  have sz: "0 < size_of (of_rows [[2, 3], [4, 5]])" by (simp add: size_2345)
  have sh: "shape0 (of_rows [[2, 3], [4, 5]]) = 2" "shape1 (of_rows [[2, 3], [4, 5]]) = 2"
    by (simp_all add: of_rows_def)
  from adjacency_total [of "of_rows [[2, 3], [4, 5]]"] sz show ?thesis
    by (simp add: sh)
qed


subsection \<open>CONTAG of a single-class window\<close>

lemma distinct_singleton:
  assumes "distinct ys" and "set ys = {c}"
  shows "ys = [c]"
proof -
  have "length ys = card (set ys)" using assms(1) by (simp add: distinct_card)
  then have "length ys = 1" using assms(2) by simp
  then obtain y where "ys = [y]" by (cases ys) auto
  with assms(2) show ?thesis by simp
qed

lemma count_list_all:
  assumes "set xs = {c}"
  shows "count_list xs c = length xs"
  using sum_count_set [of xs "{c}"] assms by simp

lemma single_class_unique:
  assumes "card (classes_present A) = 1"
  shows "\<exists>c. unique_counts A = ([c], [size_of A])"
proof -
  from assms obtain c where c: "classes_present A = {c}"
    by (auto simp: card_1_singleton_iff)
  then have s: "set (flatten A) = {c}" by (simp add: set_flatten)
  have "sort (remdups (flatten A)) = [c]"
    by (rule distinct_singleton) (simp_all add: s)
  moreover have "count_list (flatten A) c = size_of A"
    using count_list_all [OF s] by (simp add: length_flatten)
  ultimately have "unique_counts A = ([c], [size_of A])"
    by (simp add: unique_counts_def)
  then show ?thesis ..
qed

lemma single_class_total:
  assumes "unique_counts A = ([c], cs)"
  shows "sum_list (flatten (adjacency_matrix A)) = cell (adjacency_matrix A) 0 0"
  using assms by (simp add: sum_list_flatten shape_adjacency_matrix)

lemma contag_term_single:
  assumes "T = cell M 0 0"
  shows "contag_term [Fin 1] M T 0 0 (Fin 0) = Fin 0"
proof (cases "T = 0")
  case True
  then show ?thesis by (simp add: contag_term_def)
next
  case False
  then have "real (cell M 0 0) / real T = 1" using assms by simp
  with False show ?thesis by (simp add: contag_term_def)
qed

text \<open>
  C2. For a valid window with exactly one distinct pixel value, \<open>m = 1\<close>, the divisor
  \<open>2 ln m\<close> of CONTAG is zero and nothing guards the division: the sum of the
  \<open>p ln p\<close> terms is zero as well, the quotient is NaN, and so is CONTAG.
\<close>

theorem contag_single_class:
  assumes "valid_window A" and "card (classes_present A) = 1"
  shows "length (fst (unique_counts A)) = 1
       \<and> contag_denominator (length (fst (unique_counts A))) = Fin 0
       \<and> calculate_contag A (size_of A) = NaN"
proof -
  from single_class_unique [OF assms(2)] obtain c
    where u: "unique_counts A = ([c], [size_of A])" ..
  have sz: "0 < size_of A" using assms(1) by (rule valid_window_size)
  have m: "length (fst (unique_counts A)) = 1" by (simp add: u)
  have den: "contag_denominator 1 = Fin 0" by (simp add: contag_denominator_def)
  let ?M = "adjacency_matrix A"
  let ?T = "sum_list (flatten ?M)"
  have T: "?T = cell ?M 0 0" using u by (rule single_class_total)
  have zero_sum: "contag_term [Fin 1] ?M ?T 0 0 (Fin 0) = Fin 0"
    using T by (rule contag_term_single)
  have "calculate_contag A (size_of A) =
        np_mul (np_add (Fin 1) (np_div (contag_term [Fin 1] ?M ?T 0 0 (Fin 0))
                                  (contag_denominator 1))) (Fin 100)"
    using sz by (simp add: calculate_contag_def u Let_def)
  also have "\<dots> = NaN" by (simp only: zero_sum den) simp
  finally show ?thesis using m den by simp
qed

lemma flatten_5s: "flatten (of_rows [[5, 5, 5], [5, 5, 5], [5, 5, 5]]) = [5, 5, 5, 5, 5, 5, 5, 5, 5]"
  by (simp add: flatten_def of_rows_def)

lemma size_5s: "size_of (of_rows [[5, 5, 5], [5, 5, 5], [5, 5, 5]]) = 9"
  by (simp add: size_of_def of_rows_def)

lemma valid_5s: "valid_window (of_rows [[5, 5, 5], [5, 5, 5], [5, 5, 5]])"
  by (simp add: valid_window_code flatten_5s count_true_def size_5s)

lemma classes_5s: "card (classes_present (of_rows [[5, 5, 5], [5, 5, 5], [5, 5, 5]])) = 1"
proof -
  have "classes_present (of_rows [[5, 5, 5], [5, 5, 5], [5, 5, 5]]) = {5}"
    unfolding set_flatten [symmetric] flatten_5s by simp
  then show ?thesis by simp
qed

theorem contag_single_class_witness:
  "valid_window (of_rows [[5, 5, 5], [5, 5, 5], [5, 5, 5]])
   \<and> card (classes_present (of_rows [[5, 5, 5], [5, 5, 5], [5, 5, 5]])) = 1
   \<and> calculate_contag (of_rows [[5, 5, 5], [5, 5, 5], [5, 5, 5]])
        (size_of (of_rows [[5, 5, 5], [5, 5, 5], [5, 5, 5]])) = NaN"
  using contag_single_class [OF valid_5s classes_5s] valid_5s classes_5s by blast


end
